theory Spec2Isabelle
  imports Complex_Main "HOL-Library.Stream"
begin

section \<open>Hardy golf model: embedding of \<^verbatim>\<open>core.py\<close>\<close>

text \<open>
  The Python source works on \<^verbatim>\<open>numpy\<close> arrays of floats indexed by Python integers.
  Python integers are modelled as \<^typ>\<open>int\<close>, arrays as lists, and the float
  probabilities as exact \<^typ>\<open>real\<close> numbers: every statement below about the
  numeric content of a probability mass function is a statement under exact arithmetic.
  Exceptions are values: a function that can raise returns \<open>error + result\<close>.
\<close>

subsection \<open>Errors and message formatting\<close>

datatype error = ValueError string | IndexError string | RuntimeError string

fun str_nat :: "nat \<Rightarrow> string" where
  "str_nat n = (if n < 10 then [''0123456789'' ! n]
                else str_nat (n div 10) @ [''0123456789'' ! (n mod 10)])"

declare str_nat.simps [simp del]

definition str_int :: "int \<Rightarrow> string" where
  "str_int n = (if n < 0 then ''-'' @ str_nat (nat (- n)) else str_nat (nat n))"

text \<open>The messages of the exceptions that \<^verbatim>\<open>numpy\<close> itself raises.\<close>

definition negative_dimensions :: error where
  "negative_dimensions = ValueError ''negative dimensions are not allowed''"

definition index_0_out_of_bounds :: error where
  "index_0_out_of_bounds = IndexError ''index 0 is out of bounds for axis 0 with size 0''"

definition invalid_probabilities :: error where
  "invalid_probabilities = ValueError ''Need 0 <= p, 0 <= q, and p + q < 1''"

subsection \<open>The stochastic simulator\<close>

text \<open>
  \<^verbatim>\<open>rng.choice(3, p=probs)\<close> yields an index 0, 1 or 2 and advances the generator.
  The generator is modelled by the stream of the indices it is going to yield; the
  three indices are the constructors \<open>Good\<close> (0), \<open>Bad\<close> (1) and \<open>Ordinary\<close> (2),
  in the order of \<^verbatim>\<open>probs = [p, q, 1 - p - q]\<close>.
\<close>

datatype shot_type = Good | Bad | Ordinary

type_synonym rng = "shot_type stream"

text \<open>\<^verbatim>\<open>values = np.array([2, 0, 1])\<close>\<close>

fun values_at :: "shot_type \<Rightarrow> int" where
  "values_at Good = 2"
| "values_at Bad = 0"
| "values_at Ordinary = 1"

text \<open>
  The \<^verbatim>\<open>while total_value < par_m\<close> loop. Its state is the accumulated value, the
  shot counter and the generator. The generator is returned in every case, so that
  the number of draws made is observable.
\<close>

function sim_loop :: "int \<Rightarrow> int \<Rightarrow> int \<Rightarrow> int \<Rightarrow> rng \<Rightarrow> (error + int) \<times> rng" where
  "sim_loop par_m max_shots total_value score rng =
     (if total_value < par_m then
        let shot_type = shd rng; rng = stl rng;
            total_value = total_value + values_at shot_type;
            score = score + 1
        in if score > max_shots
           then (Inl (RuntimeError ''Exceeded max_shots. Check parameters.''), rng)
           else sim_loop par_m max_shots total_value score rng
      else (Inr score, rng))"
  by pat_completeness auto
termination
  by (relation "measure (\<lambda>(par_m, max_shots, total_value, score, rng). nat (max_shots + 1 - score))")
     auto

declare sim_loop.simps [simp del]

definition simulate_hole_hardy :: "int \<Rightarrow> real \<Rightarrow> real \<Rightarrow> rng \<Rightarrow> int \<Rightarrow> (error + int) \<times> rng" where
  "simulate_hole_hardy par_m p q rng max_shots =
     (if p < 0 \<or> q < 0 \<or> p + q \<ge> 1 then (Inl invalid_probabilities, rng)
      else sim_loop par_m max_shots 0 0 rng)"

text \<open>The error raised when the cap is exceeded (the BoundExceeded kind of the specification).\<close>

definition bound_exceeded :: error where
  "bound_exceeded = RuntimeError ''Exceeded max_shots. Check parameters.''"

text \<open>The accumulated value after the first \<open>n\<close> draws of a generator.\<close>

definition total_after :: "rng \<Rightarrow> nat \<Rightarrow> int" where
  "total_after rng n = sum_list (map values_at (stake n rng))"

subsection \<open>Array helpers\<close>

text \<open>
  \<^verbatim>\<open>a[k] += v\<close> on a float array. Every use in the two solvers has
  \<open>0 \<le> k < len(a)\<close> (see \<open>markov_indices_in_range\<close> below), so neither the wrap-around of
  negative indices nor an \<^verbatim>\<open>IndexError\<close> can occur there.
\<close>

definition add_at :: "real list \<Rightarrow> int \<Rightarrow> real \<Rightarrow> real list" where
  "add_at a k v = a[nat k := a ! nat k + v]"

text \<open>\<^verbatim>\<open>np.zeros(n)\<close> for \<open>n \<ge> 0\<close>.\<close>

definition zeros :: "int \<Rightarrow> real list" where
  "zeros n = replicate (nat n) 0"

text \<open>\<^verbatim>\<open>np.zeros_like(a)\<close>\<close>

definition zeros_like :: "'a list \<Rightarrow> real list" where
  "zeros_like a = replicate (length a) 0"

subsection \<open>The single-boundary solver\<close>

text \<open>The body of \<^verbatim>\<open>for s in range(par_m)\<close>, acting on \<open>(p_state_next, pmf)\<close>.\<close>

definition markov_state_step ::
  "int \<Rightarrow> real \<Rightarrow> real \<Rightarrow> real \<Rightarrow> real list \<Rightarrow> int \<Rightarrow> int \<Rightarrow> real list \<times> real list
   \<Rightarrow> real list \<times> real list" where
  "markov_state_step par_m probs_good probs_bad probs_ord p_state shot s acc =
     (case acc of (p_state_next, pmf) \<Rightarrow>
        let prob_here = p_state ! nat s in
        if prob_here = 0 then (p_state_next, pmf)
        else
          let (p_state_next, pmf) =
                (if s + 2 \<ge> par_m
                 then (p_state_next, add_at pmf (shot - 1) (prob_here * probs_good))
                 else (add_at p_state_next (s + 2) (prob_here * probs_good), pmf));
              (p_state_next, pmf) =
                (if s + 1 \<ge> par_m
                 then (p_state_next, add_at pmf (shot - 1) (prob_here * probs_ord))
                 else (add_at p_state_next (s + 1) (prob_here * probs_ord), pmf));
              p_state_next = add_at p_state_next s (prob_here * probs_bad)
          in (p_state_next, pmf))"

text \<open>The body of \<^verbatim>\<open>for shot in range(1, n_max + 1)\<close>, acting on \<open>(p_state, pmf)\<close>.\<close>

definition markov_shot_step ::
  "int \<Rightarrow> real \<Rightarrow> real \<Rightarrow> real \<Rightarrow> int \<Rightarrow> real list \<times> real list \<Rightarrow> real list \<times> real list" where
  "markov_shot_step par_m probs_good probs_bad probs_ord shot st =
     (case st of (p_state, pmf) \<Rightarrow>
        fold (markov_state_step par_m probs_good probs_bad probs_ord p_state shot)
             [0..par_m - 1] (zeros_like p_state, pmf))"

definition hardy_distribution_markov ::
  "int \<Rightarrow> real \<Rightarrow> real \<Rightarrow> int \<Rightarrow> error + (int list \<times> real list)" where
  "hardy_distribution_markov par_m p q n_max =
     (if p < 0 \<or> q < 0 \<or> p + q \<ge> 1 then Inl invalid_probabilities
      else if par_m < 0 then Inl negative_dimensions
      else if par_m = 0 then Inl index_0_out_of_bounds
      else if n_max < 0 then Inl negative_dimensions
      else
        let probs_good = p; probs_bad = q; probs_ord = 1 - p - q;
            p_state = (zeros par_m)[0 := 1];
            pmf = zeros n_max;
            (p_state, pmf) =
               fold (markov_shot_step par_m probs_good probs_bad probs_ord)
                    [1..n_max] (p_state, pmf);
            scores = [1..n_max]
        in Inr (scores, pmf))"

subsection \<open>The dual-boundary solver\<close>

text \<open>The body of \<^verbatim>\<open>for s in range(par_m)\<close> of \<^verbatim>\<open>hardy_finish_pmf_ij\<close>.\<close>

definition finish_state_step ::
  "int \<Rightarrow> int \<Rightarrow> real \<Rightarrow> real \<Rightarrow> real \<Rightarrow> real list \<Rightarrow> int \<Rightarrow> int \<Rightarrow> real list \<times> real list
   \<Rightarrow> real list \<times> real list" where
  "finish_state_step par_m j p_good p_bad p_ord p_state shot s acc =
     (case acc of (p_next, pmf) \<Rightarrow>
        let ordinary_abs = par_m; exceptional_abs = par_m + 1;
            prob_here = p_state ! nat s in
        if prob_here = 0 then (p_next, pmf)
        else
          let (p_next, pmf) =
                (if s + 2 \<ge> exceptional_abs then
                   (if j = exceptional_abs
                    then (p_next, add_at pmf shot (prob_here * p_good))
                    else (p_next, pmf))
                 else if s + 2 = ordinary_abs then
                   (if j = ordinary_abs
                    then (p_next, add_at pmf shot (prob_here * p_good))
                    else (p_next, pmf))
                 else (add_at p_next (s + 2) (prob_here * p_good), pmf));
              (p_next, pmf) =
                (if s + 1 \<ge> exceptional_abs then
                   (if j = exceptional_abs
                    then (p_next, add_at pmf shot (prob_here * p_ord))
                    else (p_next, pmf))
                 else if s + 1 = ordinary_abs then
                   (if j = ordinary_abs
                    then (p_next, add_at pmf shot (prob_here * p_ord))
                    else (p_next, pmf))
                 else (add_at p_next (s + 1) (prob_here * p_ord), pmf));
              p_next = add_at p_next s (prob_here * p_bad)
          in (p_next, pmf))"

definition finish_shot_step ::
  "int \<Rightarrow> int \<Rightarrow> real \<Rightarrow> real \<Rightarrow> real \<Rightarrow> int \<Rightarrow> real list \<times> real list \<Rightarrow> real list \<times> real list" where
  "finish_shot_step par_m j p_good p_bad p_ord shot st =
     (case st of (p_state, pmf) \<Rightarrow>
        fold (finish_state_step par_m j p_good p_bad p_ord p_state shot)
             [0..par_m - 1] (zeros_like p_state, pmf))"

definition hardy_finish_pmf_ij ::
  "int \<Rightarrow> int \<Rightarrow> int \<Rightarrow> real \<Rightarrow> real \<Rightarrow> int \<Rightarrow> error + (int list \<times> real list)" where
  "hardy_finish_pmf_ij par_m i j p q n_max =
     (if p < 0 \<or> q < 0 \<or> p + q \<ge> 1 then Inl invalid_probabilities
      else if par_m < 1 then Inl (ValueError ''par_m must be at least 1'')
      else if \<not> (0 \<le> i \<and> i \<le> par_m + 1)
        then Inl (ValueError (''i must be between 0 and '' @ str_int (par_m + 1)))
      else if j \<noteq> par_m \<and> j \<noteq> par_m + 1
        then Inl (ValueError (''j must be par_m ('' @ str_int par_m @ '') or par_m + 1 (''
                              @ str_int (par_m + 1) @ '')''))
      else
        let p_good = p; p_bad = q; p_ord = 1 - p - q;
            n_array = [0..n_max];
            pmf = zeros_like n_array;
            ordinary_abs = par_m; exceptional_abs = par_m + 1;
            other_abs = (if j = exceptional_abs then ordinary_abs else exceptional_abs)
        in
          if i = j then
            (if pmf = [] then Inl index_0_out_of_bounds else Inr (n_array, pmf[0 := 1]))
          else if i = other_abs then Inr (n_array, pmf)
          else
            let p_state = zeros par_m in
            if 0 \<le> i \<and> i \<le> par_m - 1 then
              let p_state = p_state[nat i := 1];
                  (p_state, pmf) =
                     fold (finish_shot_step par_m j p_good p_bad p_ord)
                          [1..n_max] (p_state, pmf)
              in Inr (n_array, pmf)
            else Inr (n_array, pmf))"

subsection \<open>Quantities used to describe the two loops\<close>

text \<open>
  The definitions of this subsection are not part of the source: they name what each
  loop iteration computes, and the lemmas \<open>markov_char\<close> and \<open>finish_char\<close> below
  prove that the two solvers, as embedded above, compute exactly these.
\<close>

text \<open>What one transient state \<open>s\<close> of mass \<open>x\<close> adds to the next-step vector: the same in both solvers.\<close>

definition spread :: "int \<Rightarrow> real \<Rightarrow> real \<Rightarrow> real \<Rightarrow> real \<Rightarrow> int \<Rightarrow> real list \<Rightarrow> real list" where
  "spread par_m pg pb po x s nxt =
     add_at (let n1 = (if s + 2 < par_m then add_at nxt (s + 2) (x * pg) else nxt)
             in if s + 1 < par_m then add_at n1 (s + 1) (x * po) else n1)
            s (x * pb)"

text \<open>The mass that state \<open>s\<close> of mass \<open>x\<close> sends to the single (merged) boundary in one shot.\<close>

definition absorbed_any :: "int \<Rightarrow> real \<Rightarrow> real \<Rightarrow> real \<Rightarrow> int \<Rightarrow> real" where
  "absorbed_any par_m pg po x s =
     (if s + 2 \<ge> par_m then x * pg else 0) + (if s + 1 \<ge> par_m then x * po else 0)"

text \<open>The mass that state \<open>s\<close> of mass \<open>x\<close> sends to the target boundary \<open>j\<close> in one shot.\<close>

definition absorbed_at :: "int \<Rightarrow> int \<Rightarrow> real \<Rightarrow> real \<Rightarrow> real \<Rightarrow> int \<Rightarrow> real" where
  "absorbed_at par_m j pg po x s =
     (if s + 2 \<ge> par_m + 1 then (if j = par_m + 1 then x * pg else 0)
      else if s + 2 = par_m then (if j = par_m then x * pg else 0) else 0)
   + (if s + 1 \<ge> par_m + 1 then (if j = par_m + 1 then x * po else 0)
      else if s + 1 = par_m then (if j = par_m then x * po else 0) else 0)"

text \<open>The next-step transient vector computed by one iteration of the shot loop.\<close>

definition trans_next :: "int \<Rightarrow> real \<Rightarrow> real \<Rightarrow> real \<Rightarrow> real list \<Rightarrow> real list" where
  "trans_next par_m pg pb po v =
     fold (\<lambda>s. spread par_m pg pb po (v ! nat s) s) [0..par_m - 1] (zeros_like v)"

text \<open>The mass absorbed in one shot from the transient vector \<open>v\<close>, single boundary.\<close>

definition mass_any :: "int \<Rightarrow> real \<Rightarrow> real \<Rightarrow> real list \<Rightarrow> real" where
  "mass_any par_m pg po v = (\<Sum>s\<leftarrow>[0..par_m - 1]. absorbed_any par_m pg po (v ! nat s) s)"

text \<open>The mass absorbed at the target boundary \<open>j\<close> in one shot from the transient vector \<open>v\<close>.\<close>

definition mass_at :: "int \<Rightarrow> int \<Rightarrow> real \<Rightarrow> real \<Rightarrow> real list \<Rightarrow> real" where
  "mass_at par_m j pg po v = (\<Sum>s\<leftarrow>[0..par_m - 1]. absorbed_at par_m j pg po (v ! nat s) s)"

text \<open>The initial transient vector: mass 1 at state \<open>i\<close>.\<close>

definition start_at :: "int \<Rightarrow> int \<Rightarrow> real list" where
  "start_at par_m i = (zeros par_m)[nat i := 1]"

text \<open>The transient vector after \<open>n\<close> shots.\<close>

definition vec_after :: "int \<Rightarrow> real \<Rightarrow> real \<Rightarrow> int \<Rightarrow> nat \<Rightarrow> real list" where
  "vec_after par_m p q i n = ((trans_next par_m p q (1 - p - q)) ^^ n) (start_at par_m i)"

text \<open>The mass absorbed (at either boundary) by shot \<open>n + 1\<close>, starting from state \<open>i\<close>.\<close>

definition any_pmf :: "int \<Rightarrow> int \<Rightarrow> real \<Rightarrow> real \<Rightarrow> nat \<Rightarrow> real" where
  "any_pmf par_m i p q n = mass_any par_m p (1 - p - q) (vec_after par_m p q i n)"

text \<open>The mass absorbed at the target boundary \<open>j\<close> by shot \<open>n + 1\<close>, starting from state \<open>i\<close>.\<close>

definition target_pmf :: "int \<Rightarrow> int \<Rightarrow> int \<Rightarrow> real \<Rightarrow> real \<Rightarrow> nat \<Rightarrow> real" where
  "target_pmf par_m i j p q n = mass_at par_m j p (1 - p - q) (vec_after par_m p q i n)"

section \<open>The simulator\<close>

lemma values_at_nonneg: "0 \<le> values_at x" by (cases x) auto

lemma total_after_0: "total_after rng 0 = 0" by (simp add: total_after_def)

lemma total_after_Suc: "total_after rng (Suc n) = values_at (shd rng) + total_after (stl rng) n"
  by (simp add: total_after_def)

lemma total_after_mono: "m \<le> n \<Longrightarrow> total_after rng m \<le> total_after rng n"
proof (induction n arbitrary: m rng)
  case 0 then show ?case by simp
next
  case (Suc n)
  show ?case
  proof (cases m)
    case 0
    have "0 \<le> total_after rng (Suc n)"
      unfolding total_after_def by (rule sum_list_nonneg) (auto simp: values_at_nonneg)
    then show ?thesis using 0 by (simp add: total_after_0)
  next
    case (Suc m')
    then show ?thesis using Suc.IH[of m' "stl rng"] Suc.prems by (simp add: total_after_Suc)
  qed
qed

lemma sim_loop_done: "par_m \<le> total_value \<Longrightarrow> sim_loop par_m max_shots total_value score rng = (Inr score, rng)"
  by (simp add: sim_loop.simps)

lemma sim_loop_advance:
  "\<forall>m<n. total_value + total_after rng m < par_m \<Longrightarrow> score + int n \<le> max_shots \<Longrightarrow>
   sim_loop par_m max_shots total_value score rng
   = sim_loop par_m max_shots (total_value + total_after rng n) (score + int n) (sdrop n rng)"
proof (induction n arbitrary: total_value score rng)
  case 0 then show ?case by (simp add: total_after_0)
next
  case (Suc n)
  from Suc.prems(1) have lt: "total_value < par_m" by (auto simp: total_after_0 dest: spec[of _ 0])
  have step: "sim_loop par_m max_shots total_value score rng
     = sim_loop par_m max_shots (total_value + values_at (shd rng)) (score + 1) (stl rng)"
    using lt Suc.prems(2) by (subst sim_loop.simps) (simp add: Let_def)
  have "\<forall>m<n. total_value + values_at (shd rng) + total_after (stl rng) m < par_m"
  proof (intro allI impI)
    fix m assume "m < n"
    then have "Suc m < Suc n" by simp
    with Suc.prems(1) have "total_value + total_after rng (Suc m) < par_m" by blast
    then show "total_value + values_at (shd rng) + total_after (stl rng) m < par_m"
      by (simp add: total_after_Suc)
  qed
  from Suc.IH[OF this, of "score + 1"] Suc.prems(2)
  show ?case by (simp add: step total_after_Suc add.assoc)
qed

lemma sim_loop_exceed:
  "total_value < par_m \<Longrightarrow> max_shots \<le> score \<Longrightarrow>
   sim_loop par_m max_shots total_value score rng
   = (Inl (RuntimeError ''Exceeded max_shots. Check parameters.''), stl rng)"
  by (subst sim_loop.simps) (simp add: Let_def)


lemma sim_loop_raises:
  assumes "1 \<le> par_m" and "total_after rng (nat max_shots) < par_m"
  shows "sim_loop par_m max_shots 0 0 rng = (Inl bound_exceeded, sdrop (Suc (nat max_shots)) rng)"
proof -
  let ?n = "nat max_shots"
  have below: "total_after rng m < par_m" if "m \<le> ?n" for m
    using total_after_mono[OF that, of rng] assms(2) by linarith
  show ?thesis
  proof (cases "0 \<le> max_shots")
    case True
    have "sim_loop par_m max_shots 0 0 rng
          = sim_loop par_m max_shots (0 + total_after rng ?n) (0 + int ?n) (sdrop ?n rng)"
      by (rule sim_loop_advance) (use below True in auto)
    also have "\<dots> = (Inl bound_exceeded, stl (sdrop ?n rng))"
      unfolding bound_exceeded_def by (rule sim_loop_exceed) (use assms(2) True in auto)
    also have "stl (sdrop ?n rng) = sdrop (Suc ?n) rng"
      by (metis sdrop.simps(2) sdrop_stl)
    finally show ?thesis .
  next
    case False
    then have "?n = 0" by simp
    moreover have "sim_loop par_m max_shots 0 0 rng = (Inl bound_exceeded, stl rng)"
      unfolding bound_exceeded_def by (rule sim_loop_exceed) (use assms(1) False in auto)
    ultimately show ?thesis by simp
  qed
qed

lemma sim_loop_returns:
  assumes "par_m \<le> total_after rng n" and "\<forall>m<n. total_after rng m < par_m"
    and "int n \<le> max_shots"
  shows "sim_loop par_m max_shots 0 0 rng = (Inr (int n), sdrop n rng)"
proof -
  have "sim_loop par_m max_shots 0 0 rng
        = sim_loop par_m max_shots (0 + total_after rng n) (0 + int n) (sdrop n rng)"
    by (rule sim_loop_advance) (use assms in auto)
  also have "\<dots> = (Inr (int n), sdrop n rng)"
    using assms(1) by (simp add: sim_loop_done)
  finally show ?thesis .
qed

text \<open>
  C6. For every \<open>par_m \<ge> 1\<close>, valid \<open>p\<close>, \<open>q\<close>, every generator and every cap:
  the simulator returns \<open>k\<close> if and only if the accumulated value first reaches or
  exceeds \<open>par_m\<close> on shot \<open>k\<close> and \<open>1 \<le> k \<le> max_shots\<close>; it raises the
  bound-exceeded error if and only if the accumulated value is still below \<open>par_m\<close>
  after \<open>max_shots\<close> shots; and it raises no other error.
\<close>

theorem simulate_hole_returns_or_raises:
  assumes "1 \<le> par_m" and "0 \<le> p" and "0 \<le> q" and "p + q < 1"
  shows "(fst (simulate_hole_hardy par_m p q rng max_shots) = Inr k \<longleftrightarrow>
            1 \<le> k \<and> k \<le> max_shots \<and> par_m \<le> total_after rng (nat k) \<and>
            (\<forall>m<nat k. total_after rng m < par_m))
       \<and> (fst (simulate_hole_hardy par_m p q rng max_shots) = Inl bound_exceeded \<longleftrightarrow>
            total_after rng (nat max_shots) < par_m)
       \<and> (\<forall>e. fst (simulate_hole_hardy par_m p q rng max_shots) = Inl e \<longrightarrow> e = bound_exceeded)"
proof -
  have run: "simulate_hole_hardy par_m p q rng max_shots = sim_loop par_m max_shots 0 0 rng"
    using assms by (simp add: simulate_hole_hardy_def)
  show ?thesis
  proof (cases "total_after rng (nat max_shots) < par_m")
    case True
    have res: "fst (simulate_hole_hardy par_m p q rng max_shots) = Inl bound_exceeded"
      by (simp add: run sim_loop_raises[OF assms(1) True])
    have "\<not> (k \<le> max_shots \<and> par_m \<le> total_after rng (nat k))"
    proof
      assume h: "k \<le> max_shots \<and> par_m \<le> total_after rng (nat k)"
      then have "nat k \<le> nat max_shots" by linarith
      from total_after_mono[OF this, of rng] h True show False by linarith
    qed
    with res True show ?thesis by auto
  next
    case False
    define n where "n = (LEAST n. par_m \<le> total_after rng n)"
    from False have ex: "par_m \<le> total_after rng (nat max_shots)" by simp
    then have hit: "par_m \<le> total_after rng n"
      unfolding n_def by (rule LeastI)
    have le: "n \<le> nat max_shots"
      unfolding n_def using ex by (rule Least_le)
    have first: "\<forall>m<n. total_after rng m < par_m"
    proof (intro allI impI)
      fix m assume "m < n"
      then have "\<not> par_m \<le> total_after rng m"
        unfolding n_def by (rule not_less_Least)
      then show "total_after rng m < par_m" by simp
    qed
    have "n \<noteq> 0"
    proof
      assume "n = 0"
      with hit assms(1) show False by (simp add: total_after_0)
    qed
    then have n1: "1 \<le> int n" by simp
    from le n1 have bound: "int n \<le> max_shots" by linarith
    have res: "fst (simulate_hole_hardy par_m p q rng max_shots) = Inr (int n)"
      by (simp add: run sim_loop_returns[OF hit first bound])
    have uniq: "k = int n"
      if "1 \<le> k" "par_m \<le> total_after rng (nat k)" "\<forall>m<nat k. total_after rng m < par_m"
    proof -
      have "\<not> nat k < n" using first that(2) by force
      moreover have "\<not> n < nat k" using that(3) hit by force
      ultimately have "nat k = n" by simp
      with that(1) show ?thesis by simp
    qed
    show ?thesis using res False hit first bound n1 uniq by auto
  qed
qed

theorem simulate_hole_witness:
  "(1::int) \<le> 2 \<and> (0::real) \<le> 1/4 \<and> (1/4::real) + 1/4 < 1 \<and>
   fst (simulate_hole_hardy 2 (1/4) (1/4) (sconst Good) 19) = Inr 1"
proof -
  have h: "(1::int) \<le> 2" "(0::real) \<le> 1/4" "(1/4::real) + 1/4 < 1" by simp_all
  have hit: "(2::int) \<le> total_after (sconst Good) (nat 1)"
    by (simp add: total_after_def)
  have first: "\<forall>m<nat 1. total_after (sconst Good) m < 2"
    by (simp add: total_after_def)
  have "fst (simulate_hole_hardy 2 (1/4) (1/4) (sconst Good) 19) = Inr 1 \<longleftrightarrow>
        (1::int) \<le> 1 \<and> (1::int) \<le> 19 \<and> 2 \<le> total_after (sconst Good) (nat 1) \<and>
        (\<forall>m<nat 1. total_after (sconst Good) m < 2)"
    using simulate_hole_returns_or_raises [OF h(1) h(2) h(2) h(3), of "sconst Good" 19 1]
    by (rule conjunct1)
  moreover have "(1::int) \<le> 1 \<and> (1::int) \<le> 19" by simp
  ultimately show ?thesis using hit first h by blast
qed

text \<open>
  C10. \<^verbatim>\<open>simulate_hole_hardy\<close> does not validate \<^verbatim>\<open>par_m\<close>: for every
  \<open>par_m \<le> 0\<close> and valid \<open>p\<close>, \<open>q\<close> it returns 0 and leaves the generator where it
  was (not a single sample is drawn), whatever the cap; it raises nothing.
\<close>

theorem simulate_nonpositive_par_returns_zero:
  assumes "par_m \<le> 0" and "0 \<le> p" and "0 \<le> q" and "p + q < 1"
  shows "simulate_hole_hardy par_m p q rng max_shots = (Inr 0, rng)"
  using assms by (simp add: simulate_hole_hardy_def sim_loop_done)

theorem simulate_nonpositive_par_witness:
  "(0::int) \<le> 0 \<and> (0::real) \<le> 1/4 \<and> (1/4::real) + 1/4 < 1 \<and>
   simulate_hole_hardy 0 (1/4) (1/4) (sconst Good) 19 = (Inr 0, sconst Good)"
  using simulate_nonpositive_par_returns_zero [of 0 "1/4" "1/4" "sconst Good" 19] by simp

section \<open>The two exact solvers\<close>

subsection \<open>Arrays\<close>

lemma length_add_at [simp]: "length (add_at a k v) = length a"
  by (simp add: add_at_def)

lemma add_at_0 [simp]: "add_at a k 0 = a"
  by (simp add: add_at_def)

lemma add_at_add_at: "add_at (add_at a k u) k v = add_at a k (u + v)"
  by (cases "nat k < length a") (simp_all add: add_at_def add.assoc list_update_beyond)




lemma markov_state_step_eq:
  "markov_state_step par_m pg pb po v shot s (nxt, pmf) =
     (spread par_m pg pb po (v ! nat s) s nxt,
      add_at pmf (shot - 1) (absorbed_any par_m pg po (v ! nat s) s))"
  by (simp add: markov_state_step_def spread_def absorbed_any_def Let_def add_at_add_at)

lemma finish_state_step_eq:
  "finish_state_step par_m j pg pb po v shot s (nxt, pmf) =
     (spread par_m pg pb po (v ! nat s) s nxt,
      add_at pmf shot (absorbed_at par_m j pg po (v ! nat s) s))"
  by (simp add: finish_state_step_def spread_def absorbed_at_def Let_def add_at_add_at)

lemma fold_pair_steps:
  assumes "\<And>s nxt pmf. f s (nxt, pmf) = (g s nxt, add_at pmf k (h s))"
  shows "fold f ss (nxt, pmf) = (fold g ss nxt, add_at pmf k (\<Sum>s\<leftarrow>ss. h s))"
proof (induction ss arbitrary: nxt pmf)
  case Nil then show ?case by simp
next
  case (Cons s ss)
  show ?case by (simp add: assms Cons.IH add_at_add_at)
qed

lemma markov_shot_step_eq:
  "markov_shot_step par_m pg pb po shot (v, pmf) =
     (trans_next par_m pg pb po v, add_at pmf (shot - 1) (mass_any par_m pg po v))"
  unfolding markov_shot_step_def trans_next_def mass_any_def prod.case
  by (rule fold_pair_steps) (rule markov_state_step_eq)

lemma finish_shot_step_eq:
  "finish_shot_step par_m j pg pb po shot (v, pmf) =
     (trans_next par_m pg pb po v, add_at pmf shot (mass_at par_m j pg po v))"
  unfolding finish_shot_step_def trans_next_def mass_at_def prod.case
  by (rule fold_pair_steps) (rule finish_state_step_eq)

lemma add_at_first_zero:
  assumes "nat k = length xs"
  shows "add_at (xs @ replicate (Suc m) 0) k v = xs @ [v] @ replicate m 0"
  using assms by (simp add: add_at_def list_update_append nth_append)

lemma shot_loop_char:
  assumes step: "\<And>shot v a. f shot (v, a) = (T v, add_at a (shot - 1 + int d) (M v))"
    and pre: "length pre = d" and k: "k \<le> N"
  shows "fold f [1..int k] (v0, pre @ replicate N 0) =
           ((T ^^ k) v0, pre @ map (\<lambda>n. M ((T ^^ n) v0)) [0..<k] @ replicate (N - k) 0)"
  using k
proof (induction k)
  case 0 then show ?case by simp
next
  case (Suc k)
  have up: "[1..int (Suc k)] = [1..int k] @ [int k + 1]"
    using upto_rec2[of 1 "int (Suc k)"] by simp
  from Suc.prems obtain m where m: "N - k = Suc m" "N - Suc k = m"
    by (cases "N - k") auto
  have idx: "nat (int k + 1 - 1 + int d) = length (pre @ map (\<lambda>n. M ((T ^^ n) v0)) [0..<k])"
    using pre by simp
  from Suc have IH: "fold f [1..int k] (v0, pre @ replicate N 0) =
           ((T ^^ k) v0, pre @ map (\<lambda>n. M ((T ^^ n) v0)) [0..<k] @ replicate (N - k) 0)"
    by simp
  have "fold f [1..int (Suc k)] (v0, pre @ replicate N 0)
        = f (int k + 1) (fold f [1..int k] (v0, pre @ replicate N 0))"
    by (simp only: up fold_append fold.simps comp_def id_def)
  also have "\<dots> = f (int k + 1) ((T ^^ k) v0, pre @ map (\<lambda>n. M ((T ^^ n) v0)) [0..<k] @ replicate (N - k) 0)"
    by (simp only: IH)
  also have "\<dots> = (T ((T ^^ k) v0),
        add_at ((pre @ map (\<lambda>n. M ((T ^^ n) v0)) [0..<k]) @ replicate (Suc m) 0)
               (int k + 1 - 1 + int d) (M ((T ^^ k) v0)))"
    by (simp add: step m)
  also have "\<dots> = ((T ^^ Suc k) v0,
        pre @ map (\<lambda>n. M ((T ^^ n) v0)) [0..<Suc k] @ replicate (N - Suc k) 0)"
    unfolding add_at_first_zero[OF idx] by (simp add: m)
  finally show ?case .
qed



lemma length_spread [simp]: "length (spread par_m pg pb po x s nxt) = length nxt"
  by (simp add: spread_def Let_def)

lemma length_fold_spread [simp]:
  "length (fold (\<lambda>s. spread par_m pg pb po (f s) s) ss nxt) = length nxt"
  by (induction ss arbitrary: nxt) simp_all

lemma length_trans_next [simp]: "length (trans_next par_m pg pb po v) = length v"
  by (simp add: trans_next_def zeros_like_def)







lemma vec_after_0: "vec_after par_m p q i 0 = start_at par_m i"
  by (simp add: vec_after_def)

lemma vec_after_Suc:
  "vec_after par_m p q i (Suc n) = trans_next par_m p q (1 - p - q) (vec_after par_m p q i n)"
  by (simp add: vec_after_def)

lemma length_start_at [simp]: "length (start_at par_m i) = nat par_m"
  by (simp add: start_at_def zeros_def)

lemma length_vec_after [simp]: "length (vec_after par_m p q i n) = nat par_m"
  by (induction n) (simp_all add: vec_after_0 vec_after_Suc)




















lemma markov_loop_char:
  assumes "k \<le> nat n_max"
  shows "fold (markov_shot_step par_m p q (1 - p - q)) [1..int k] (start_at par_m i, zeros n_max)
         = (vec_after par_m p q i k,
            map (any_pmf par_m i p q) [0..<k] @ replicate (nat n_max - k) 0)"
proof -
  have "fold (markov_shot_step par_m p q (1 - p - q)) [1..int k]
             (start_at par_m i, [] @ replicate (nat n_max) 0)
        = ((trans_next par_m p q (1 - p - q) ^^ k) (start_at par_m i),
           [] @ map (\<lambda>n. mass_any par_m p (1 - p - q)
                             ((trans_next par_m p q (1 - p - q) ^^ n) (start_at par_m i))) [0..<k]
              @ replicate (nat n_max - k) 0)"
    by (rule shot_loop_char[where d = 0]) (simp_all add: markov_shot_step_eq assms)
  then show ?thesis
    by (simp add: zeros_def vec_after_def any_pmf_def)
qed

lemma finish_loop_char:
  assumes "k \<le> nat n_max" and "0 \<le> n_max"
  shows "fold (finish_shot_step par_m j p q (1 - p - q)) [1..int k]
              (start_at par_m i, zeros_like [0..n_max])
         = (vec_after par_m p q i k,
            0 # map (target_pmf par_m i j p q) [0..<k] @ replicate (nat n_max - k) 0)"
proof -
  have z: "zeros_like [0..n_max] = [0] @ replicate (nat n_max) 0"
    using assms(2) by (simp add: zeros_like_def nat_add_distrib replicate_Suc[symmetric] del: replicate_Suc)
  have "fold (finish_shot_step par_m j p q (1 - p - q)) [1..int k]
             (start_at par_m i, [0] @ replicate (nat n_max) 0)
        = ((trans_next par_m p q (1 - p - q) ^^ k) (start_at par_m i),
           [0] @ map (\<lambda>n. mass_at par_m j p (1 - p - q)
                             ((trans_next par_m p q (1 - p - q) ^^ n) (start_at par_m i))) [0..<k]
              @ replicate (nat n_max - k) 0)"
    by (rule shot_loop_char[where d = 1]) (simp_all add: finish_shot_step_eq assms)
  then show ?thesis
    unfolding z by (simp add: vec_after_def target_pmf_def)
qed

lemma markov_char:
  assumes "0 \<le> p" and "0 \<le> q" and "p + q < 1" and "1 \<le> par_m" and "0 \<le> n_max"
  shows "hardy_distribution_markov par_m p q n_max
         = Inr ([1..n_max], map (any_pmf par_m 0 p q) [0..<nat n_max])"
proof -
  have "fold (markov_shot_step par_m p q (1 - p - q)) [1..int (nat n_max)]
             (start_at par_m 0, zeros n_max)
        = (vec_after par_m p q 0 (nat n_max),
           map (any_pmf par_m 0 p q) [0..<nat n_max] @ replicate (nat n_max - nat n_max) 0)"
    by (rule markov_loop_char) simp
  then have "fold (markov_shot_step par_m p q (1 - p - q)) [1..n_max]
             ((zeros par_m)[0 := 1], zeros n_max)
        = (vec_after par_m p q 0 (nat n_max), map (any_pmf par_m 0 p q) [0..<nat n_max])"
    using assms(5) by (simp add: start_at_def)
  then show ?thesis
    using assms by (simp add: hardy_distribution_markov_def Let_def)
qed

lemma finish_char:
  assumes "0 \<le> p" and "0 \<le> q" and "p + q < 1" and "1 \<le> par_m" and "0 \<le> n_max"
    and "0 \<le> i" and "i \<le> par_m - 1" and "j = par_m \<or> j = par_m + 1"
  shows "hardy_finish_pmf_ij par_m i j p q n_max
         = Inr ([0..n_max], 0 # map (target_pmf par_m i j p q) [0..<nat n_max])"
proof -
  have "fold (finish_shot_step par_m j p q (1 - p - q)) [1..int (nat n_max)]
              (start_at par_m i, zeros_like [0..n_max])
         = (vec_after par_m p q i (nat n_max),
            0 # map (target_pmf par_m i j p q) [0..<nat n_max]
              @ replicate (nat n_max - nat n_max) 0)"
    using assms(5) by (intro finish_loop_char) simp_all
  then have "fold (finish_shot_step par_m j p q (1 - p - q)) [1..n_max]
              ((zeros par_m)[nat i := 1], zeros_like [0..n_max])
         = (vec_after par_m p q i (nat n_max),
            0 # map (target_pmf par_m i j p q) [0..<nat n_max])"
    using assms(5) by (simp add: start_at_def)
  moreover have "i \<noteq> j" "i \<noteq> par_m" "i \<noteq> par_m + 1" using assms(7,8) by auto
  ultimately show ?thesis
    using assms by (simp add: hardy_finish_pmf_ij_def Let_def)
qed

subsection \<open>Results of the two solvers\<close>

lemma finish_same:
  assumes "0 \<le> p" and "0 \<le> q" and "p + q < 1" and "1 \<le> par_m"
    and "j = par_m \<or> j = par_m + 1" and "0 \<le> n_max"
  shows "hardy_finish_pmf_ij par_m j j p q n_max = Inr ([0..n_max], 1 # replicate (nat n_max) 0)"
proof -
  have z: "zeros_like [0..n_max] = 0 # replicate (nat n_max) 0"
    using assms(6) by (simp add: zeros_like_def nat_add_distrib)
  show ?thesis
    using assms by (auto simp: hardy_finish_pmf_ij_def Let_def z)
qed


lemma finish_other:
  assumes "0 \<le> p" and "0 \<le> q" and "p + q < 1" and "1 \<le> par_m"
    and "(i = par_m + 1 \<and> j = par_m) \<or> (i = par_m \<and> j = par_m + 1)"
  shows "hardy_finish_pmf_ij par_m i j p q n_max = Inr ([0..n_max], replicate (nat (n_max + 1)) 0)"
  using assms by (auto simp: hardy_finish_pmf_ij_def Let_def zeros_like_def)


lemma take_map_upt: "k \<le> n \<Longrightarrow> take k (map f [0..<n]) = map f [0..<k]"
  by (simp add: take_map)

text \<open>
  C7. For every valid \<open>par_m\<close>, \<open>p\<close>, \<open>q\<close>, every horizon \<open>n_max \<ge> 0\<close> and every
  \<open>i = j\<close> (so \<open>i\<close> is the target boundary, \<open>par_m\<close> or \<open>par_m + 1\<close>), the dual-boundary
  solver returns the steps \<open>0..n_max\<close> and the sequence with \<open>pmf[0] = 1\<close> and
  \<open>pmf[n] = 0\<close> for every \<open>n\<close> in \<open>1..n_max\<close>; the result is produced by the early return,
  not by the shot loop.
\<close>

theorem finish_same_state:
  assumes "0 \<le> p" and "0 \<le> q" and "p + q < 1" and "1 \<le> par_m"
    and "j = par_m \<or> j = par_m + 1" and "i = j" and "0 \<le> n_max"
  shows "hardy_finish_pmf_ij par_m i j p q n_max = Inr ([0..n_max], 1 # replicate (nat n_max) 0)"
  using finish_same[OF assms(1-5) assms(7)] assms(6) by simp

theorem finish_same_state_witness:
  "(0::real) \<le> 1/4 \<and> (1/4::real) + 1/4 < 1 \<and> (1::int) \<le> 2 \<and> (0::int) \<le> 3 \<and>
   hardy_finish_pmf_ij 2 3 3 (1/4) (1/4) 3 = Inr ([0..3], 1 # replicate (nat 3) 0)"
  using finish_same_state [of "1/4" "1/4" 2 3 3 3] by simp

text \<open>
  C8. For every valid \<open>par_m\<close>, \<open>p\<close>, \<open>q\<close> and every \<open>n_max\<close>, when the start state is the
  absorbing boundary that is not the target (\<open>i = par_m + 1\<close> with \<open>j = par_m\<close>, or
  \<open>i = par_m\<close> with \<open>j = par_m + 1\<close>), the dual-boundary solver returns the all-zero
  sequence, of length \<open>n_max + 1\<close>.
\<close>

theorem finish_other_boundary:
  assumes "0 \<le> p" and "0 \<le> q" and "p + q < 1" and "1 \<le> par_m"
    and "(i = par_m + 1 \<and> j = par_m) \<or> (i = par_m \<and> j = par_m + 1)"
  shows "\<exists>ns pmf. hardy_finish_pmf_ij par_m i j p q n_max = Inr (ns, pmf)
           \<and> pmf = replicate (nat (n_max + 1)) 0
           \<and> (0 \<le> n_max \<longrightarrow> int (length pmf) = n_max + 1)"
  using finish_other[OF assms] by simp

theorem finish_other_boundary_witness:
  "(0::real) \<le> 1/4 \<and> (1/4::real) + 1/4 < 1 \<and> (1::int) \<le> 2 \<and>
   (\<exists>ns pmf. hardy_finish_pmf_ij 2 3 2 (1/4) (1/4) 3 = Inr (ns, pmf)
           \<and> pmf = replicate (nat (3 + 1)) 0
           \<and> ((0::int) \<le> 3 \<longrightarrow> int (length pmf) = 3 + 1))"
  using finish_other_boundary [of "1/4" "1/4" 2 3 2 3] by simp











lemma finish_prefix:
  assumes "0 \<le> p" and "0 \<le> q" and "p + q < 1" and "1 \<le> par_m"
    and "0 \<le> i" and "i \<le> par_m + 1" and "j = par_m \<or> j = par_m + 1"
    and "0 \<le> n_max" and "n_max \<le> n_max'"
  shows "\<exists>ns pmf ns' pmf'.
           hardy_finish_pmf_ij par_m i j p q n_max = Inr (ns, pmf)
           \<and> hardy_finish_pmf_ij par_m i j p q n_max' = Inr (ns', pmf')
           \<and> length pmf = nat n_max + 1 \<and> pmf = take (nat n_max + 1) pmf'"
proof -
  have n': "0 \<le> n_max'" and le: "nat n_max \<le> nat n_max'" using assms(8,9) by simp_all
  consider (same) "i = j" | (other) "i \<noteq> j" "i = par_m \<or> i = par_m + 1"
    | (transient) "i \<le> par_m - 1"
    using assms(6) by linarith
  then show ?thesis
  proof cases
    case same
    have "hardy_finish_pmf_ij par_m i j p q n_max
          = Inr ([0..n_max], 1 # replicate (nat n_max) 0)"
      unfolding same using assms(1-4,7,8) by (rule finish_same)
    moreover have "hardy_finish_pmf_ij par_m i j p q n_max'
          = Inr ([0..n_max'], 1 # replicate (nat n_max') 0)"
      unfolding same using assms(1-4,7) n' by (rule finish_same)
    ultimately show ?thesis using le by (simp add: min_def)
  next
    case other
    then have o: "(i = par_m + 1 \<and> j = par_m) \<or> (i = par_m \<and> j = par_m + 1)"
      using assms(7) by auto
    have "hardy_finish_pmf_ij par_m i j p q n_max
          = Inr ([0..n_max], replicate (nat (n_max + 1)) 0)"
      using assms(1-4) o by (rule finish_other)
    moreover have "hardy_finish_pmf_ij par_m i j p q n_max'
          = Inr ([0..n_max'], replicate (nat (n_max' + 1)) 0)"
      using assms(1-4) o by (rule finish_other)
    ultimately show ?thesis using assms(8,9) by (simp add: min_def nat_add_distrib)
  next
    case transient
    have "hardy_finish_pmf_ij par_m i j p q n_max
          = Inr ([0..n_max], 0 # map (target_pmf par_m i j p q) [0..<nat n_max])"
      using assms(1-4,8,5) transient assms(7) by (rule finish_char)
    moreover have "hardy_finish_pmf_ij par_m i j p q n_max'
          = Inr ([0..n_max'], 0 # map (target_pmf par_m i j p q) [0..<nat n_max'])"
      using assms(1-4) n' assms(5) transient assms(7) by (rule finish_char)
    ultimately show ?thesis using le by (simp add: take_map_upt)
  qed
qed

lemma markov_prefix:
  assumes "0 \<le> p" and "0 \<le> q" and "p + q < 1" and "1 \<le> par_m"
    and "0 \<le> n_max" and "n_max \<le> n_max'"
  shows "\<exists>ss qs ss' qs'.
           hardy_distribution_markov par_m p q n_max = Inr (ss, qs)
           \<and> hardy_distribution_markov par_m p q n_max' = Inr (ss', qs')
           \<and> length qs = nat n_max \<and> qs = take (nat n_max) qs'"
proof -
  have n': "0 \<le> n_max'" and le: "nat n_max \<le> nat n_max'" using assms(5,6) by simp_all
  have "hardy_distribution_markov par_m p q n_max
        = Inr ([1..n_max], map (any_pmf par_m 0 p q) [0..<nat n_max])"
    using assms(1-5) by (rule markov_char)
  moreover have "hardy_distribution_markov par_m p q n_max'
        = Inr ([1..n_max'], map (any_pmf par_m 0 p q) [0..<nat n_max'])"
    using assms(1-4) n' by (rule markov_char)
  ultimately show ?thesis using le by (simp add: take_map_upt)
qed

text \<open>
  C9. Horizon prefix-stability: for every valid input and horizons
  \<open>0 \<le> n_max \<le> n_max'\<close>, the pmf of the dual-boundary solver for horizon \<open>n_max\<close> is the
  prefix of length \<open>n_max + 1\<close> (steps \<open>0..n_max\<close>) of the pmf for horizon \<open>n_max'\<close>, and the
  pmf of the single-boundary solver for horizon \<open>n_max\<close> is the prefix of length \<open>n_max\<close>
  (steps \<open>1..n_max\<close>) of the pmf for horizon \<open>n_max'\<close>.
\<close>

theorem horizon_prefix_stable:
  assumes "0 \<le> p" and "0 \<le> q" and "p + q < 1" and "1 \<le> par_m"
    and "0 \<le> i" and "i \<le> par_m + 1" and "j = par_m \<or> j = par_m + 1"
    and "0 \<le> n_max" and "n_max \<le> n_max'"
  shows "(\<exists>ns pmf ns' pmf'.
           hardy_finish_pmf_ij par_m i j p q n_max = Inr (ns, pmf)
           \<and> hardy_finish_pmf_ij par_m i j p q n_max' = Inr (ns', pmf')
           \<and> length pmf = nat n_max + 1 \<and> pmf = take (nat n_max + 1) pmf'
           \<and> (\<forall>n\<le>nat n_max. pmf ! n = pmf' ! n))
       \<and> (\<exists>ss qs ss' qs'.
           hardy_distribution_markov par_m p q n_max = Inr (ss, qs)
           \<and> hardy_distribution_markov par_m p q n_max' = Inr (ss', qs')
           \<and> length qs = nat n_max \<and> qs = take (nat n_max) qs'
           \<and> (\<forall>n<nat n_max. qs ! n = qs' ! n))"
proof -
  obtain ns pmf ns' pmf' where f:
    "hardy_finish_pmf_ij par_m i j p q n_max = Inr (ns, pmf)"
    "hardy_finish_pmf_ij par_m i j p q n_max' = Inr (ns', pmf')"
    "length pmf = nat n_max + 1" "pmf = take (nat n_max + 1) pmf'"
    using finish_prefix[OF assms] by blast
  have fe: "\<forall>n\<le>nat n_max. pmf ! n = pmf' ! n"
    by (subst f(4)) simp
  obtain ss qs ss' qs' where m:
    "hardy_distribution_markov par_m p q n_max = Inr (ss, qs)"
    "hardy_distribution_markov par_m p q n_max' = Inr (ss', qs')"
    "length qs = nat n_max" "qs = take (nat n_max) qs'"
    using markov_prefix[OF assms(1-4,8,9)] by blast
  have me: "\<forall>n<nat n_max. qs ! n = qs' ! n"
    by (subst m(4)) simp
  from f fe m me show ?thesis by blast
qed

theorem horizon_prefix_stable_witness:
  "(0::real) \<le> 1/4 \<and> (1/4::real) + 1/4 < 1 \<and> (1::int) \<le> 2 \<and> (0::int) \<le> 0 \<and>
   (0::int) \<le> 2 + 1 \<and> (0::int) \<le> 3 \<and> (3::int) \<le> 5 \<and>
   (\<exists>ns pmf ns' pmf'.
           hardy_finish_pmf_ij 2 0 2 (1/4) (1/4) 3 = Inr (ns, pmf)
           \<and> hardy_finish_pmf_ij 2 0 2 (1/4) (1/4) 5 = Inr (ns', pmf')
           \<and> length pmf = nat 3 + 1 \<and> pmf = take (nat 3 + 1) pmf'
           \<and> (\<forall>n\<le>nat 3. pmf ! n = pmf' ! n))
       \<and> (\<exists>ss qs ss' qs'.
           hardy_distribution_markov 2 (1/4) (1/4) 3 = Inr (ss, qs)
           \<and> hardy_distribution_markov 2 (1/4) (1/4) 5 = Inr (ss', qs')
           \<and> length qs = nat 3 \<and> qs = take (nat 3) qs'
           \<and> (\<forall>n<nat 3. qs ! n = qs' ! n))"
proof -
  have h: "(0::real) \<le> 1/4" "(1/4::real) + 1/4 < 1" "(1::int) \<le> 2" "(0::int) \<le> 0"
    "(0::int) \<le> 2 + 1" "(2::int) = 2 \<or> (2::int) = 2 + 1" "(0::int) \<le> 3" "(3::int) \<le> 5"
    by simp_all
  note t = horizon_prefix_stable [OF h(1) h(1) h(2) h(3) h(4) h(5) h(6) h(7) h(8)]
  show ?thesis
    using t h by (intro conjI) (erule conjunct1 conjunct2 | assumption)+
qed

subsection \<open>The degenerate hole \<open>par_m = 1\<close>\<close>









subsection \<open>Validation\<close>

text \<open>
  What the two solvers do on invalid input. The dual-boundary solver rejects every
  invalid parameter with a \<^verbatim>\<open>ValueError\<close> of its own before it builds anything. The
  single-boundary solver checks the probabilities only.
\<close>

lemma finish_rejects_invalid:
  assumes "p < 0 \<or> q < 0 \<or> 1 \<le> p + q \<or> par_m < 1 \<or> i < 0 \<or> par_m + 1 < i
           \<or> (j \<noteq> par_m \<and> j \<noteq> par_m + 1)"
  shows "\<exists>msg. hardy_finish_pmf_ij par_m i j p q n_max = Inl (ValueError msg)"
  using assms by (auto simp: hardy_finish_pmf_ij_def invalid_probabilities_def)

lemma markov_rejects_invalid_probabilities:
  "p < 0 \<or> q < 0 \<or> 1 \<le> p + q \<Longrightarrow> hardy_distribution_markov par_m p q n_max = Inl invalid_probabilities"
  by (simp add: hardy_distribution_markov_def)

lemma markov_negative_par: 
  "0 \<le> p \<Longrightarrow> 0 \<le> q \<Longrightarrow> p + q < 1 \<Longrightarrow> par_m < 0 \<Longrightarrow>
   hardy_distribution_markov par_m p q n_max = Inl negative_dimensions"
  by (simp add: hardy_distribution_markov_def)

text \<open>
  C5 says that both exact solvers raise the invalid-parameter error before any
  computation whenever \<open>par < 1\<close>. The single-boundary solver has no such check: at
  \<open>par_m = 0\<close> with valid probabilities it builds the empty state vector and then fails
  with the \<^verbatim>\<open>IndexError\<close> of \<^verbatim>\<open>p_state[0] = 1.0\<close>, where the dual-boundary solver
  raises its \<^verbatim>\<open>ValueError\<close>.
\<close>

theorem markov_par_zero_not_rejected:
  "hardy_distribution_markov 0 (1/4) (1/4) 5 = Inl index_0_out_of_bounds
   \<and> hardy_finish_pmf_ij 0 0 0 (1/4) (1/4) 5 = Inl (ValueError ''par_m must be at least 1'')"
  by (simp add: hardy_distribution_markov_def hardy_finish_pmf_ij_def)

subsection \<open>Array indices stay in range\<close>

lemma markov_indices_in_range:
  assumes "0 \<le> s" and "s < par_m" and "length p_next = nat par_m"
    and "1 \<le> shot" and "shot \<le> n_max"
  shows "(s + 2 < par_m \<longrightarrow> 0 \<le> s + 2 \<and> nat (s + 2) < length p_next)
       \<and> (s + 1 < par_m \<longrightarrow> 0 \<le> s + 1 \<and> nat (s + 1) < length p_next)
       \<and> nat s < length p_next
       \<and> 0 \<le> shot - 1 \<and> nat (shot - 1) < length (zeros n_max)
       \<and> nat shot < length (zeros_like [0..n_max])"
  using assms by (simp add: zeros_def zeros_like_def)

end
